theory Spec2Isabelle
  imports Main "HOL-Library.Monad_Syntax"
begin

section \<open>SC.IndexSet: the boundary-encoded index set of index_set.js\<close>

text \<open>
  The source keeps a set of indexes in a sparse JavaScript array \<open>_content\<close>: at the
  start of a range the array holds the end of the range, positive for an occupied range
  and negative for an empty one; every 256th index that is not a range start holds a
  hint, the start of the nearest range. \<open>_last\<close> is the end of the last range and
  \<open>length\<close> the cached number of indexes.

  The model reads the array as a map from integers to integers: \<open>None\<close> is JavaScript's
  \<open>undefined\<close> (a hole of the array, or a key never written). Indexes and lengths are
  integers; a JavaScript number that is \<open>undefined\<close> or \<open>NaN\<close> is \<open>None\<close>, and
  every comparison with it is false, as in JavaScript. A loop of the source that may run
  forever is a partial function into \<open>option\<close>: \<open>None\<close> is a call that never returns.
\<close>

subsection \<open>JavaScript arithmetic used by the source\<close>

text \<open>\<open>a % b\<close>: the remainder has the sign of the dividend.\<close>

definition js_rem :: "int \<Rightarrow> int \<Rightarrow> int" where
  "js_rem a b = sgn a * (\<bar>a\<bar> mod \<bar>b\<bar>)"

text \<open>\<open>Math.abs(v)\<close>: \<open>Math.abs(undefined)\<close> is \<open>NaN\<close>.\<close>

definition js_abs :: "int option \<Rightarrow> int option" where
  "js_abs v = (case v of None \<Rightarrow> None | Some n \<Rightarrow> Some \<bar>n\<bar>)"

text \<open>\<open>content[k]\<close> where \<open>k\<close> itself may be \<open>undefined\<close>: no such key is ever written.\<close>

definition at :: "(int \<rightharpoonup> int) \<Rightarrow> int option \<Rightarrow> int option" where
  "at c k = (case k of None \<Rightarrow> None | Some i \<Rightarrow> c i)"

text \<open>
  The comparisons \<open>v > n\<close>, \<open>v < n\<close>, \<open>v <= n\<close> and \<open>v >= n\<close> where \<open>v\<close> may be
  \<open>undefined\<close> or \<open>NaN\<close>.
\<close>

definition js_lt :: "int option \<Rightarrow> int \<Rightarrow> bool" where
  "js_lt v n = (case v of None \<Rightarrow> False | Some x \<Rightarrow> x < n)"

definition js_gt :: "int option \<Rightarrow> int \<Rightarrow> bool" where
  "js_gt v n = (case v of None \<Rightarrow> False | Some x \<Rightarrow> x > n)"

definition js_le :: "int option \<Rightarrow> int \<Rightarrow> bool" where
  "js_le v n = (case v of None \<Rightarrow> False | Some x \<Rightarrow> x \<le> n)"

definition js_ge :: "int option \<Rightarrow> int \<Rightarrow> bool" where
  "js_ge v n = (case v of None \<Rightarrow> False | Some x \<Rightarrow> x \<ge> n)"

subsection \<open>The object\<close>

text \<open>
  The fields \<open>_content\<close>, \<open>_last\<close> and \<open>length\<close>, and \<open>changes\<close>: the calls of
  \<open>enumerableContentDidChange(start, length)\<close> made so far, in order (the hook belongs to
  SC.Enumerable, which the source only mixes in).
\<close>

record index_set =
  content :: "int \<rightharpoonup> int"
  last_is :: int
  length_is :: int
  changes :: "(int \<times> int) list"

definition HINT_SIZE :: int where
  "HINT_SIZE = 256"

text \<open>
  \<open>SC.IndexSet = function(ranges)\<close>: the constructor sets \<open>_content = [0]\<close> and never
  reads \<open>ranges\<close>; \<open>_last\<close> and \<open>length\<close> are the prototype's 0.
\<close>

definition IndexSet :: "int list option \<Rightarrow> index_set" where
  "IndexSet ranges = \<lparr>content = [0 \<mapsto> 0], last_is = 0, length_is = 0, changes = []\<rparr>"

text \<open>\<open>SC.IndexSet.create = function(items) { return new SC.IndexSet(items); }\<close>\<close>

definition create :: "int list option \<Rightarrow> index_set" where
  "create items = IndexSet items"

subsection \<open>rangeStartForIndex and contains\<close>

text \<open>
  \<open>while (next < index) { ret = next; next = Math.abs(content[ret]); } return ret;\<close>
\<close>

partial_function (option) rangeStart_loop ::
  "(int \<rightharpoonup> int) \<Rightarrow> int \<Rightarrow> int option \<Rightarrow> int option \<Rightarrow> int option option" where
  "rangeStart_loop c index ret nxt =
     (if js_lt nxt index then rangeStart_loop c index nxt (js_abs (at c nxt))
      else Some ret)"

text \<open>
  The result is \<open>Some r\<close> when the call returns \<open>r\<close>, where \<open>r\<close> is a number or
  \<open>undefined\<close> (the accelerator slot read may be a hole).
\<close>

definition rangeStartForIndex :: "index_set \<Rightarrow> int \<Rightarrow> int option option" where
  "rangeStartForIndex s index =
     (if index \<ge> last_is s then Some (Some (last_is s))
      else if js_gt (content s index) 0 then Some (Some index)
      else
        let ret = content s (index - js_rem index 256);
            nxt = js_abs (at (content s) ret)
        in rangeStart_loop (content s) index ret nxt)"

text \<open>
  \<open>contains(start, length)\<close> after the arguments are normalised:
  \<open>(rnext>0) && (rstart <= start) && (rnext >= (start+length))\<close>.
\<close>

definition contains :: "index_set \<Rightarrow> int \<Rightarrow> int \<Rightarrow> bool option" where
  "contains s start len =
     do {
       rstart \<leftarrow> rangeStartForIndex s start;
       let rnext = at (content s) rstart;
       Some (js_gt rnext 0 \<and> js_le rstart start \<and> js_ge rnext (start + len))
     }"

subsection \<open>The accelerator: _hint\<close>

text \<open>
  The inner loop \<open>while (next <= loc) { start = next; next = Math.abs(content[start]); }\<close>
  returns the new \<open>start\<close> and \<open>next\<close>.
\<close>

partial_function (option) hint_inner ::
  "(int \<rightharpoonup> int) \<Rightarrow> int \<Rightarrow> int option \<Rightarrow> int option \<Rightarrow> (int option \<times> int option) option" where
  "hint_inner c loc start nxt =
     (if js_le nxt loc then hint_inner c loc nxt (js_abs (at c nxt))
      else Some (start, nxt))"

text \<open>
  The outer loop \<open>while (loc < lim) { ...; if (loc !== start) content[loc] = start;
  loc += skip; }\<close>.
\<close>

partial_function (option) hint_outer ::
  "(int \<rightharpoonup> int) \<Rightarrow> int option \<Rightarrow> int option \<Rightarrow> int \<Rightarrow> int \<Rightarrow> (int \<rightharpoonup> int) option" where
  "hint_outer c start nxt loc lim =
     (if loc < lim then
        do {
          (start', nxt') \<leftarrow> hint_inner c loc start nxt;
          hint_outer (if Some loc \<noteq> start' then c(loc := start') else c)
            start' nxt' (loc + HINT_SIZE) lim
        }
      else Some c)"

text \<open>
  \<open>_hint(start, length)\<close>. \<open>add\<close> calls it with both arguments \<open>undefined\<close> on its
  second branch: then \<open>loc\<close> and \<open>lim\<close> are \<open>NaN\<close>, \<open>loc < lim\<close> is false and the
  array is left as it is.
\<close>

definition hint :: "int option \<Rightarrow> int option \<Rightarrow> (int \<rightharpoonup> int) \<Rightarrow> (int \<rightharpoonup> int) option" where
  "hint start len c =
     (case start of
        None \<Rightarrow> Some c
      | Some st \<Rightarrow>
          (case len of
             None \<Rightarrow> Some c
           | Some l \<Rightarrow>
               hint_outer c start (js_abs (c st))
                 (st - js_rem st HINT_SIZE + HINT_SIZE) (st + l)))"

subsection \<open>add\<close>

text \<open>
  The three call shapes the source normalises: \<open>add(start)\<close> with a number, \<open>add(range)\<close>
  with an object holding \<open>start\<close> and \<open>length\<close>, and \<open>add(start, length)\<close>.
\<close>

datatype call_args = Index int | Range int int | StartLength int int

fun normalize_args :: "call_args \<Rightarrow> int \<times> int" where
  "normalize_args (Index start) = (start, 1)"
| "normalize_args (Range start len) = (start, len)"
| "normalize_args (StartLength start len) = (start, len)"

text \<open>
  \<open>add(start, length)\<close> on normalised arguments. The branch \<open>start > last\<close> appends; the
  other branch of the source is empty, so \<open>hstart\<close> and \<open>hlength\<close> stay \<open>undefined\<close>.
  Both branches end in \<open>_hint\<close> and the change notification.
\<close>

definition add :: "int \<Rightarrow> int \<Rightarrow> index_set \<Rightarrow> index_set option" where
  "add start len s =
     (let last = last_is s in
      if start > last then
        let content1 = (content s)(last \<mapsto> 0 - start);
            content2 = content1(start \<mapsto> start + len);
            content3 = content2(start + len \<mapsto> 0);
            last' = start + len;
            hstart = last;
            hlength = last' - hstart
        in do {
          content4 \<leftarrow> hint (Some hstart) (Some hlength) content3;
          Some (s\<lparr>content := content4, last_is := last',
                  length_is := length_is s + len,
                  changes := changes s @ [(start, len)]\<rparr>)
        }
      else do {
          content4 \<leftarrow> hint None None (content s);
          Some (s\<lparr>content := content4, changes := changes s @ [(start, len)]\<rparr>)
        })"

definition add_call :: "call_args \<Rightarrow> index_set \<Rightarrow> index_set option" where
  "add_call args s = (case normalize_args args of (start, len) \<Rightarrow> add start len s)"

definition contains_call :: "index_set \<Rightarrow> call_args \<Rightarrow> bool option" where
  "contains_call s args = (case normalize_args args of (start, len) \<Rightarrow> contains s start len)"

subsection \<open>nextObject\<close>

text \<open>
  \<open>do { idx = Math.abs(next); next = content[idx]; } while (next < 0);\<close> returns the
  index and the value then stored in \<open>context.next\<close>.
\<close>

partial_function (option) next_range ::
  "(int \<rightharpoonup> int) \<Rightarrow> int option \<Rightarrow> (int option \<times> int option) option" where
  "next_range c nxt =
     (let idx = js_abs nxt; nxt' = at c idx
      in if js_lt nxt' 0 then next_range c nxt' else Some (idx, nxt'))"

text \<open>
  \<open>nextObject(ignore, idx, context)\<close>: \<open>idx\<close> is the previous result, \<open>None\<close> for
  \<open>null\<close>; the second argument here is \<open>context.next\<close>. The result is the returned
  index (\<open>None\<close> for \<open>null\<close>) and the new \<open>context.next\<close>.
\<close>

definition nextObject ::
  "index_set \<Rightarrow> int option \<Rightarrow> int option \<Rightarrow> (int option \<times> int option) option" where
  "nextObject s idx ctx_next =
     (case idx of
        None \<Rightarrow> next_range (content s) (Some 0)
      | Some i \<Rightarrow>
          if i \<ge> last_is s then Some (None, ctx_next)
          else
            let i' = i + 1 in
            if ctx_next = Some i' then next_range (content s) ctx_next
            else Some (Some i', ctx_next))"

text \<open>
  Modelled from the spec: the driver of the iteration primitive. The source holds only
  \<open>nextObject\<close>; the loop that calls it is SC.Enumerable's. As the spec words it, the
  primitive is driven from the start sentinel (\<open>null\<close>, with a fresh context) and each
  result is fed back until the terminal sentinel \<open>null\<close> comes out; the indexes produced
  in between are collected in order.
\<close>

partial_function (option) enumerate_from ::
  "index_set \<Rightarrow> int option \<Rightarrow> int option \<Rightarrow> int list \<Rightarrow> int list option" where
  "enumerate_from s idx ctx_next acc =
     do {
       (r, nxt) \<leftarrow> nextObject s idx ctx_next;
       if r = None then Some acc
       else enumerate_from s r nxt (acc @ [the r])
     }"

definition enumerate_all :: "index_set \<Rightarrow> int list option" where
  "enumerate_all s = enumerate_from s None None []"

subsection \<open>Sets built by calls of add\<close>


section \<open>Unfolding the loops\<close>

lemma js_rem_lt_hint: "js_rem a HINT_SIZE < HINT_SIZE"
proof -
  have "\<bar>a\<bar> mod 256 < 256" "0 \<le> \<bar>a\<bar> mod 256" by simp_all
  then show ?thesis
    by (cases "a < 0"; cases "a = 0") (simp_all add: js_rem_def HINT_SIZE_def sgn_if)
qed

lemma rangeStart_loop_stop:
  "\<not> js_lt nxt index \<Longrightarrow> rangeStart_loop c index ret nxt = Some ret"
  by (subst rangeStart_loop.simps) simp

lemma hint_outer_done: "lim \<le> loc \<Longrightarrow> hint_outer c start nxt loc lim = Some c"
  by (subst hint_outer.simps) simp

lemma hint_inner_stop: "\<not> js_le nxt loc \<Longrightarrow> hint_inner c loc start nxt = Some (start, nxt)"
  by (subst hint_inner.simps) simp

lemma hint_inner_step:
  "js_le nxt loc \<Longrightarrow> hint_inner c loc start nxt = hint_inner c loc nxt (js_abs (at c nxt))"
  by (subst hint_inner.simps) simp

lemma hint_outer_step:
  "loc < lim \<Longrightarrow> hint_inner c loc start nxt = Some (start', nxt') \<Longrightarrow>
   hint_outer c start nxt loc lim =
     hint_outer (if Some loc \<noteq> start' then c(loc := start') else c) start' nxt'
       (loc + HINT_SIZE) lim"
  by (subst hint_outer.simps) simp

lemma enumerate_from_unfold:
  "enumerate_from s idx ctx_next acc =
     (case nextObject s idx ctx_next of
        None \<Rightarrow> None
      | Some (r, nxt) \<Rightarrow>
          (case r of None \<Rightarrow> Some acc | Some i \<Rightarrow> enumerate_from s r nxt (acc @ [i])))"
  by (subst enumerate_from.simps) (auto split: option.splits)

lemmas eval_defs = add_def IndexSet_def create_def hint_def Let_def js_abs_def js_rem_def
  HINT_SIZE_def hint_outer_done at_def js_lt_def js_gt_def js_le_def js_ge_def

section \<open>The two branches of add\<close>

text \<open>The branch \<open>start <= last\<close>: \<open>_hint(undefined, undefined)\<close> and the notification.\<close>

lemma add_else_branch:
  "start \<le> last_is s \<Longrightarrow> add start len s = Some (s\<lparr>changes := changes s @ [(start, len)]\<rparr>)"
  by (simp add: add_def hint_def)

text \<open>
  The hint loop of an append. After the three writes of \<open>add\<close> the array holds the gap
  \<open>fr \<mapsto> -s\<close> and, when \<open>l > 0\<close>, the range \<open>s \<mapsto> s + l\<close>. The loop is either still in the
  gap (\<open>start = fr\<close>, \<open>next = s\<close>) or in the new range (\<open>start = s\<close>, \<open>next = s + l\<close>). It
  returns, and it writes nothing but hints: at a visited \<open>k\<close> other than \<open>s\<close>, the start of
  the run that holds \<open>k\<close>.
\<close>

lemma hint_outer_append:
  fixes c :: "int \<rightharpoonup> int"
  assumes s0: "0 \<le> s" and ls: "fr < s"
    and cs: "0 < l \<Longrightarrow> c s = Some (s + l)"
    and st: "(start = Some fr \<and> nxt = Some s \<and> fr < loc) \<or>
             (start = Some s \<and> nxt = Some (s + l) \<and> 0 < l \<and> s \<le> loc)"
  shows "\<exists>c'. hint_outer c start nxt loc (s + l) = Some c' \<and>
           (\<forall>k. c' k = c k \<or>
                (loc \<le> k \<and> k < s + l \<and> k \<noteq> s \<and> fr < k \<and>
                 c' k = Some (if k < s then fr else s)))"
  using cs st
proof (induction "nat (s + l - loc)" arbitrary: c start nxt loc rule: less_induct)
  case less
  show ?case
  proof (cases "loc < s + l")
    case False
    then show ?thesis by (simp add: hint_outer_done)
  next
    case True
    have dec: "nat (s + l - (loc + HINT_SIZE)) < nat (s + l - loc)"
      using True by (simp add: HINT_SIZE_def)
    from less.prems(2) show ?thesis
    proof (elim disjE conjE)
      assume a: "start = Some fr" "nxt = Some s" "fr < loc"
      show ?thesis
      proof (cases "s \<le> loc")
        case sl: True
        then have lpos: "0 < l" using True by simp
        then have csl: "c s = Some (s + l)" by (rule less.prems(1))
        have inner: "hint_inner c loc start nxt = Some (Some s, Some (s + l))"
          using a sl True s0 csl
          by (simp add: hint_inner_step hint_inner_stop js_le_def js_abs_def at_def)
        let ?c1 = "if Some loc \<noteq> Some s then c(loc := Some s) else c"
        have c1s: "0 < l \<Longrightarrow> ?c1 s = Some (s + l)" using csl by simp
        have "\<exists>c'. hint_outer ?c1 (Some s) (Some (s + l)) (loc + HINT_SIZE) (s + l) = Some c' \<and>
           (\<forall>k. c' k = ?c1 k \<or>
                (loc + HINT_SIZE \<le> k \<and> k < s + l \<and> k \<noteq> s \<and> fr < k \<and>
                 c' k = Some (if k < s then fr else s)))"
          using sl lpos
          by (intro less.hyps[where loc = "loc + HINT_SIZE" and c = ?c1 and start = "Some s"
                and nxt = "Some (s + l)", OF dec c1s]) (simp_all add: HINT_SIZE_def)
        then obtain c' where
          c': "hint_outer ?c1 (Some s) (Some (s + l)) (loc + HINT_SIZE) (s + l) = Some c'"
          and k': "\<And>k. c' k = ?c1 k \<or>
                (loc + HINT_SIZE \<le> k \<and> k < s + l \<and> k \<noteq> s \<and> fr < k \<and>
                 c' k = Some (if k < s then fr else s))" by blast
        have "hint_outer c start nxt loc (s + l) = Some c'"
          using hint_outer_step[OF True inner] c' by simp
        moreover have "c' k = c k \<or>
                (loc \<le> k \<and> k < s + l \<and> k \<noteq> s \<and> fr < k \<and>
                 c' k = Some (if k < s then fr else s))" for k
          using k'[of k] sl True a(3) by (auto simp: HINT_SIZE_def split: if_splits)
        ultimately show ?thesis by blast
      next
        case sl: False
        have inner: "hint_inner c loc start nxt = Some (Some fr, Some s)"
          using a sl by (simp add: hint_inner_stop js_le_def)
        let ?c1 = "if Some loc \<noteq> Some fr then c(loc := Some fr) else c"
        have c1s: "0 < l \<Longrightarrow> ?c1 s = Some (s + l)" using less.prems(1) sl by simp
        have "\<exists>c'. hint_outer ?c1 (Some fr) (Some s) (loc + HINT_SIZE) (s + l) = Some c' \<and>
           (\<forall>k. c' k = ?c1 k \<or>
                (loc + HINT_SIZE \<le> k \<and> k < s + l \<and> k \<noteq> s \<and> fr < k \<and>
                 c' k = Some (if k < s then fr else s)))"
          using a(3)
          by (intro less.hyps[where loc = "loc + HINT_SIZE" and c = ?c1 and start = "Some fr"
                and nxt = "Some s", OF dec c1s]) (simp_all add: HINT_SIZE_def)
        then obtain c' where
          c': "hint_outer ?c1 (Some fr) (Some s) (loc + HINT_SIZE) (s + l) = Some c'"
          and k': "\<And>k. c' k = ?c1 k \<or>
                (loc + HINT_SIZE \<le> k \<and> k < s + l \<and> k \<noteq> s \<and> fr < k \<and>
                 c' k = Some (if k < s then fr else s))" by blast
        have "hint_outer c start nxt loc (s + l) = Some c'"
          using hint_outer_step[OF True inner] c' by simp
        moreover have "c' k = c k \<or>
                (loc \<le> k \<and> k < s + l \<and> k \<noteq> s \<and> fr < k \<and>
                 c' k = Some (if k < s then fr else s))" for k
          using k'[of k] sl True a(3) by (auto simp: HINT_SIZE_def split: if_splits)
        ultimately show ?thesis by blast
      qed
    next
      assume b: "start = Some s" "nxt = Some (s + l)" "0 < l" "s \<le> loc"
      have csl: "c s = Some (s + l)" using b(3) by (rule less.prems(1))
      have inner: "hint_inner c loc start nxt = Some (Some s, Some (s + l))"
        using b True by (simp add: hint_inner_stop js_le_def)
      let ?c1 = "if Some loc \<noteq> Some s then c(loc := Some s) else c"
      have c1s: "0 < l \<Longrightarrow> ?c1 s = Some (s + l)" using csl by simp
      have "\<exists>c'. hint_outer ?c1 (Some s) (Some (s + l)) (loc + HINT_SIZE) (s + l) = Some c' \<and>
           (\<forall>k. c' k = ?c1 k \<or>
                (loc + HINT_SIZE \<le> k \<and> k < s + l \<and> k \<noteq> s \<and> fr < k \<and>
                 c' k = Some (if k < s then fr else s)))"
        using b
        by (intro less.hyps[where loc = "loc + HINT_SIZE" and c = ?c1 and start = "Some s"
              and nxt = "Some (s + l)", OF dec c1s]) (simp_all add: HINT_SIZE_def)
      then obtain c' where
        c': "hint_outer ?c1 (Some s) (Some (s + l)) (loc + HINT_SIZE) (s + l) = Some c'"
        and k': "\<And>k. c' k = ?c1 k \<or>
                (loc + HINT_SIZE \<le> k \<and> k < s + l \<and> k \<noteq> s \<and> fr < k \<and>
                 c' k = Some (if k < s then fr else s))" by blast
      have "hint_outer c start nxt loc (s + l) = Some c'"
        using hint_outer_step[OF True inner] c' by simp
      moreover have "c' k = c k \<or>
                (loc \<le> k \<and> k < s + l \<and> k \<noteq> s \<and> fr < k \<and>
                 c' k = Some (if k < s then fr else s))" for k
        using k'[of k] b True ls by (auto simp: HINT_SIZE_def split: if_splits)
      ultimately show ?thesis by blast
    qed
  qed
qed

text \<open>
  The branch \<open>start > last\<close> for \<open>start \<ge> 0\<close> and any \<open>length\<close>: the call returns; the new
  array is the old one with the three writes of \<open>add\<close>, and hints strictly between the old
  frontier and \<open>start + length\<close>.
\<close>

lemma add_append:
  assumes ls: "last_is st < s" and s0: "0 \<le> s"
  shows "\<exists>c'. add s l st = Some (st\<lparr>content := c', last_is := s + l,
                 length_is := length_is st + l, changes := changes st @ [(s, l)]\<rparr>) \<and>
           (\<forall>k. c' k = ((content st)(last_is st \<mapsto> - s, s \<mapsto> s + l, s + l \<mapsto> 0)) k \<or>
                (last_is st < k \<and> k < s + l \<and> k \<noteq> s \<and>
                 c' k = Some (if k < s then last_is st else s)))"
proof -
  let ?fr = "last_is st"
  let ?c3 = "(content st)(?fr \<mapsto> - s, s \<mapsto> s + l, s + l \<mapsto> 0)"
  let ?loc = "?fr - js_rem ?fr HINT_SIZE + HINT_SIZE"
  have loc: "?fr < ?loc" using js_rem_lt_hint[of ?fr] by simp
  have "\<exists>c'. hint_outer ?c3 (Some ?fr) (js_abs (?c3 ?fr)) ?loc (s + l) = Some c' \<and>
           (\<forall>k. c' k = ?c3 k \<or>
                (?fr < k \<and> k < s + l \<and> k \<noteq> s \<and> c' k = Some (if k < s then ?fr else s)))"
  proof (cases "?loc < s + l")
    case False
    then show ?thesis by (simp add: hint_outer_done)
  next
    case True
    then have ne: "?fr \<noteq> s + l" "?fr \<noteq> s" using loc ls by simp_all
    then have nxt: "js_abs (?c3 ?fr) = Some s" using s0 by (simp add: js_abs_def)
    have cs: "0 < l \<Longrightarrow> ?c3 s = Some (s + l)" by simp
    from hint_outer_append[where c = ?c3 and s = s and l = l and fr = ?fr and start = "Some ?fr"
        and nxt = "Some s" and loc = ?loc, OF s0 ls cs] loc
    obtain c' where "hint_outer ?c3 (Some ?fr) (Some s) ?loc (s + l) = Some c'"
      and "\<And>k. c' k = ?c3 k \<or>
                (?loc \<le> k \<and> k < s + l \<and> k \<noteq> s \<and> ?fr < k \<and>
                 c' k = Some (if k < s then ?fr else s))" by blast
    then show ?thesis unfolding nxt by blast
  qed
  then obtain c' where h: "hint_outer ?c3 (Some ?fr) (js_abs (?c3 ?fr)) ?loc (s + l) = Some c'"
    and k: "\<forall>k. c' k = ?c3 k \<or>
                (?fr < k \<and> k < s + l \<and> k \<noteq> s \<and> c' k = Some (if k < s then ?fr else s))"
    by blast
  have "hint (Some ?fr) (Some (s + l - ?fr)) ?c3 = Some c'"
    using h by (simp add: hint_def)
  then have "add s l st = Some (st\<lparr>content := c', last_is := s + l,
                 length_is := length_is st + l, changes := changes st @ [(s, l)]\<rparr>)"
    using ls by (simp add: add_def Let_def)
  with k show ?thesis by blast
qed


section \<open>The claims\<close>

text \<open>
  C1. \<open>add(start, length)\<close> with \<open>start\<close> below the frontier is to mark the range present,
  merging with the runs it touches, and \<open>add(0,5)\<close> then \<open>add(5,5)\<close> on an empty set is to
  give the single run from 0 to 10. The source's merge branch is empty: on the empty set
  \<open>add(0,5)\<close> changes nothing but the notification log, \<open>add(5,5)\<close> then appends an empty
  run from 0 to 5 and an occupied run from 5 to 10 with cardinality 5, and \<open>add(2,2)\<close> below
  the frontier 10 again changes nothing.
\<close>

theorem add_merge_branch_empty:
  "add 0 5 (IndexSet None) =
     Some \<lparr>content = [0 \<mapsto> 0], last_is = 0, length_is = 0, changes = [(0, 5)]\<rparr> \<and>
   add 5 5 \<lparr>content = [0 \<mapsto> 0], last_is = 0, length_is = 0, changes = [(0, 5)]\<rparr> =
     Some \<lparr>content = [0 \<mapsto> - 5, 5 \<mapsto> 10, 10 \<mapsto> 0], last_is = 10, length_is = 5,
           changes = [(0, 5), (5, 5)]\<rparr> \<and>
   add 2 2 \<lparr>content = [0 \<mapsto> - 5, 5 \<mapsto> 10, 10 \<mapsto> 0], last_is = 10, length_is = 5,
           changes = [(0, 5), (5, 5)]\<rparr> =
     Some \<lparr>content = [0 \<mapsto> - 5, 5 \<mapsto> 10, 10 \<mapsto> 0], last_is = 10, length_is = 5,
           changes = [(0, 5), (5, 5), (2, 2)]\<rparr>"
  by (simp add: eval_defs)

text \<open>
  C2. \<open>rangeStartForIndex(index)\<close> is to return the key of the run that holds the index.
  After \<open>add(5,5)\<close> on a new set the runs are 0 to 5 (empty) and 5 to 10 (occupied). For
  index 3 the source reads the slot at 3 - 3 % 256 = 0 as a hint, but that slot is a run
  start holding the end marker -5; it takes -5 as it is, finds nothing at key -5 and
  returns -5, where the run holding 3 starts at 0. For index 7 it returns -5 as well,
  where the run holding 7 starts at 5.
\<close>

theorem rangeStartForIndex_reads_run_end_as_hint:
  "add 5 5 (IndexSet None) =
     Some \<lparr>content = [0 \<mapsto> - 5, 5 \<mapsto> 10, 10 \<mapsto> 0], last_is = 10, length_is = 5,
        changes = [(5, 5)]\<rparr> \<and>
   rangeStartForIndex \<lparr>content = [0 \<mapsto> - 5, 5 \<mapsto> 10, 10 \<mapsto> 0], last_is = 10, length_is = 5,
        changes = [(5, 5)]\<rparr> 3 = Some (Some (- 5)) \<and>
   rangeStartForIndex \<lparr>content = [0 \<mapsto> - 5, 5 \<mapsto> 10, 10 \<mapsto> 0], last_is = 10, length_is = 5,
        changes = [(5, 5)]\<rparr> 7 = Some (Some (- 5))"
  by (simp add: eval_defs rangeStartForIndex_def rangeStart_loop_stop)

text \<open>
  C3. The cached cardinality is to equal the number of indexes that \<open>nextObject\<close> produces
  between the start sentinel and the terminal sentinel, and an empty set is to enumerate
  nothing. In the source the do-while of \<open>nextObject\<close> does not stop at the end marker, so
  the frontier itself comes out before \<open>null\<close>: a new set (cardinality 0) enumerates the
  index 0, and the set after \<open>add(5,5)\<close> (cardinality 5) enumerates 5 to 10, six indexes.
\<close>

theorem enumeration_yields_frontier:
  "enumerate_all (IndexSet None) = Some [0] \<and> length_is (IndexSet None) = 0 \<and>
   add 5 5 (IndexSet None) =
     Some \<lparr>content = [0 \<mapsto> - 5, 5 \<mapsto> 10, 10 \<mapsto> 0], last_is = 10, length_is = 5,
        changes = [(5, 5)]\<rparr> \<and>
   enumerate_all \<lparr>content = [0 \<mapsto> - 5, 5 \<mapsto> 10, 10 \<mapsto> 0], last_is = 10, length_is = 5,
        changes = [(5, 5)]\<rparr> = Some [5, 6, 7, 8, 9, 10] \<and>
   length_is \<lparr>content = [0 \<mapsto> - 5, 5 \<mapsto> 10, 10 \<mapsto> 0], last_is = 10, length_is = 5,
        changes = [(5, 5)]\<rparr> = 5"
  by (simp add: enumerate_all_def enumerate_from_unfold nextObject_def next_range.simps
      eval_defs)

text \<open>
  C4. \<open>remove(s, l)\<close> after \<open>add(s, l)\<close> on an empty set is to give the empty set again. The
  source defines no \<open>remove\<close> for ranges (the only text of that name is commented out and
  belongs to a hashed object set), so there is no function to embed. What the source does
  with the first half of the scenario: \<open>add(3,2)\<close> on a new set leaves cardinality 2 and
  \<open>contains(3,2)\<close> true; the source has no operation that takes the two indexes out again.
\<close>

theorem add_leaves_range_no_remove:
  "add 3 2 (IndexSet None) =
     Some \<lparr>content = [0 \<mapsto> - 3, 3 \<mapsto> 5, 5 \<mapsto> 0], last_is = 5, length_is = 2,
           changes = [(3, 2)]\<rparr> \<and>
   contains \<lparr>content = [0 \<mapsto> - 3, 3 \<mapsto> 5, 5 \<mapsto> 0], last_is = 5, length_is = 2,
           changes = [(3, 2)]\<rparr> 3 2 = Some True"
  by (simp add: contains_def rangeStartForIndex_def eval_defs)

text \<open>
  C5, as amended. \<open>add\<close> validates nothing and reports no error. With \<open>start < 0\<close>, on a
  set whose frontier is not negative, the call returns, leaves the array, the frontier and
  the cardinality as they were and still sends the change notification with the arguments
  passed. With \<open>length < 0\<close>, \<open>start \<ge> 0\<close> and \<open>start\<close> beyond the frontier the call returns
  and the append is applied: the frontier becomes \<open>start + length\<close> and the cardinality
  changes by \<open>length\<close>.
\<close>

theorem add_invalid_range_unchecked:
  "(0 \<le> last_is s \<and> start < 0 \<longrightarrow>
      add start len s = Some (s\<lparr>changes := changes s @ [(start, len)]\<rparr>)) \<and>
   (last_is s < start \<and> 0 \<le> start \<and> len < 0 \<longrightarrow>
      (\<exists>s'. add start len s = Some s' \<and> last_is s' = start + len \<and>
            length_is s' = length_is s + len \<and> changes s' = changes s @ [(start, len)]))"
proof (intro conjI impI)
  assume "0 \<le> last_is s \<and> start < 0"
  then show "add start len s = Some (s\<lparr>changes := changes s @ [(start, len)]\<rparr>)"
    by (simp add: add_else_branch)
next
  assume a: "last_is s < start \<and> 0 \<le> start \<and> len < 0"
  then have "last_is s < start" "0 \<le> start" by simp_all
  from add_append[OF this, of len]
  show "\<exists>s'. add start len s = Some s' \<and> last_is s' = start + len \<and>
            length_is s' = length_is s + len \<and> changes s' = changes s @ [(start, len)]"
    by auto
qed

text \<open>The theorem at \<open>add(-1, 5)\<close> and at \<open>add(5, -2)\<close> on a new set.\<close>

theorem add_invalid_range_unchecked_witness:
  "(0 \<le> last_is (IndexSet None) \<and> (- 1 :: int) < 0 \<and>
      add (- 1) 5 (IndexSet None) =
        Some ((IndexSet None)\<lparr>changes := changes (IndexSet None) @ [(- 1, 5)]\<rparr>)) \<and>
   (last_is (IndexSet None) < 5 \<and> (0::int) \<le> 5 \<and> (- 2 :: int) < 0 \<and>
      (\<exists>s'. add 5 (- 2) (IndexSet None) = Some s' \<and> last_is s' = 5 + - 2 \<and>
            length_is s' = length_is (IndexSet None) + - 2))"
  using add_invalid_range_unchecked [of "IndexSet None" "- 1" 5]
    add_invalid_range_unchecked [of "IndexSet None" 5 "- 2"]
  by (auto simp: IndexSet_def)

text \<open>
  C5 as stated fails: \<open>add(5, -2)\<close> on a new set returns and changes the array, the
  frontier and the cardinality (to -2), and \<open>add(-1, 5)\<close> returns like any other call.
\<close>

theorem add_invalid_range_counterexample:
  "add 5 (- 2) (IndexSet None) =
     Some \<lparr>content = [0 \<mapsto> - 5, 5 \<mapsto> 3, 3 \<mapsto> 0], last_is = 3, length_is = - 2,
           changes = [(5, - 2)]\<rparr> \<and>
   add (- 1) 5 (IndexSet None) =
     Some \<lparr>content = [0 \<mapsto> 0], last_is = 0, length_is = 0, changes = [(- 1, 5)]\<rparr>"
  by (simp add: eval_defs)

text \<open>
  C6. For \<open>start\<close> at or beyond the frontier \<open>add(start, length)\<close> is to write the occupied
  run from \<open>start\<close> to \<open>start + length\<close>, with no gap run when \<open>start\<close> equals the frontier,
  advance the frontier to \<open>start + length\<close> and raise the cardinality by \<open>length\<close>. The
  source appends only for \<open>start > last\<close>; a \<open>start\<close> equal to the frontier falls into the
  branch whose body is missing, and nothing is added. On a new set (frontier 0)
  \<open>add(0, 5)\<close> writes no run and leaves frontier and cardinality at 0; on the set after
  \<open>add(5, 5)\<close> (frontier 10) \<open>add(10, 5)\<close> writes no run at 10 and leaves the frontier at 10
  and the cardinality at 5.
\<close>

theorem add_at_frontier_appends_nothing:
  "last_is (IndexSet None) = 0 \<and>
   add 0 5 (IndexSet None) =
     Some \<lparr>content = [0 \<mapsto> 0], last_is = 0, length_is = 0, changes = [(0, 5)]\<rparr> \<and>
   add 10 5 \<lparr>content = [0 \<mapsto> - 5, 5 \<mapsto> 10, 10 \<mapsto> 0], last_is = 10, length_is = 5,
        changes = [(5, 5)]\<rparr> =
     Some \<lparr>content = [0 \<mapsto> - 5, 5 \<mapsto> 10, 10 \<mapsto> 0], last_is = 10, length_is = 5,
        changes = [(5, 5), (10, 5)]\<rparr>"
  by (simp add: eval_defs)

text \<open>
  Strictly beyond the frontier the append is as described: for \<open>start \<ge> 0\<close>, \<open>length \<ge> 0\<close>
  and \<open>start > last\<close> the call returns; it writes the empty run from the old frontier to
  \<open>start\<close>, the occupied run from \<open>start\<close> to \<open>start + length\<close> when \<open>length > 0\<close>, and the
  end marker 0 at \<open>start + length\<close>; the frontier becomes \<open>start + length\<close>, the cardinality
  grows by \<open>length\<close>, the notification is sent, and no entry below the old frontier
  changes.
\<close>

lemma add_beyond_frontier_appends:
  assumes "last_is s < start" and "0 \<le> start" and "0 \<le> len"
  shows "\<exists>s'. add start len s = Some s' \<and>
           content s' (last_is s) = Some (- start) \<and>
           (0 < len \<longrightarrow> content s' start = Some (start + len)) \<and>
           content s' (start + len) = Some 0 \<and>
           last_is s' = start + len \<and>
           length_is s' = length_is s + len \<and>
           changes s' = changes s @ [(start, len)] \<and>
           (\<forall>k. k < last_is s \<longrightarrow> content s' k = content s k)"
proof -
  from add_append[OF assms(1,2), of len]
  obtain c' where s1: "add start len s = Some (s\<lparr>content := c', last_is := start + len,
                 length_is := length_is s + len, changes := changes s @ [(start, len)]\<rparr>)"
    and k: "\<And>k. c' k = ((content s)(last_is s \<mapsto> - start, start \<mapsto> start + len,
                    start + len \<mapsto> 0)) k \<or>
                (last_is s < k \<and> k < start + len \<and> k \<noteq> start \<and>
                 c' k = Some (if k < start then last_is s else start))"
    by blast
  have 1: "c' (last_is s) = Some (- start)" using k[of "last_is s"] assms by simp
  have 2: "0 < len \<Longrightarrow> c' start = Some (start + len)" using k[of start] assms by simp
  have 3: "c' (start + len) = Some 0" using k[of "start + len"] by simp
  have 4: "k < last_is s \<Longrightarrow> c' k = content s k" for k using k[of k] assms by simp
  from s1 1 2 3 4 show ?thesis by simp
qed

text \<open>The lemma at \<open>add(5, 5)\<close> on a new set.\<close>

lemma add_beyond_frontier_appends_at_5_5:
  "last_is (IndexSet None) < 5 \<and> (0::int) \<le> 5 \<and> (0::int) \<le> 5 \<and>
   (\<exists>s'. add 5 5 (IndexSet None) = Some s' \<and>
           content s' (last_is (IndexSet None)) = Some (- 5) \<and>
           content s' 5 = Some (5 + 5) \<and>
           content s' (5 + 5) = Some 0 \<and>
           last_is s' = 5 + 5 \<and>
           length_is s' = length_is (IndexSet None) + 5)"
  using add_beyond_frontier_appends [of "IndexSet None" 5 5] by (auto simp: IndexSet_def)




text \<open>
  C8. \<open>SC.IndexSet.create(items)\<close> is to add each of the items passed. The constructor
  never reads its argument: created from the indexes 3 and 7 the set is the one created
  from nothing, its cardinality is 0, and \<open>contains(3)\<close> and \<open>contains(7)\<close> are false.
\<close>

theorem create_ignores_items:
  "create (Some [3, 7]) = create None \<and>
   length_is (create (Some [3, 7])) = 0 \<and>
   contains_call (create (Some [3, 7])) (Index 3) = Some False \<and>
   contains_call (create (Some [3, 7])) (Index 7) = Some False"
  by (simp add: contains_call_def contains_def rangeStartForIndex_def eval_defs)

text \<open>
  C9. For \<open>start \<ge> 0\<close> and \<open>length \<ge> 0\<close> and every set, \<open>add(start, length)\<close> returns, a
  second \<open>add(start, length)\<close> returns as well, and the second call leaves the array, the
  frontier and the cardinality exactly as the first call left them.
\<close>

theorem add_twice_same_as_once:
  assumes "0 \<le> start" and "0 \<le> len"
  shows "\<exists>s1 s2. add start len s = Some s1 \<and> add start len s1 = Some s2 \<and>
           content s2 = content s1 \<and> last_is s2 = last_is s1 \<and> length_is s2 = length_is s1"
proof (cases "last_is s < start")
  case True
  from add_append[OF True assms(1), of len]
  obtain c' where s1: "add start len s = Some (s\<lparr>content := c', last_is := start + len,
                 length_is := length_is s + len, changes := changes s @ [(start, len)]\<rparr>)"
    (is "_ = Some ?s1") by blast
  have "start \<le> last_is ?s1" using assms(2) by simp
  then have "add start len ?s1 = Some (?s1\<lparr>changes := changes ?s1 @ [(start, len)]\<rparr>)"
    by (rule add_else_branch)
  with s1 show ?thesis by simp
next
  case False
  then have 1: "add start len s = Some (s\<lparr>changes := changes s @ [(start, len)]\<rparr>)"
    (is "_ = Some ?s1") by (simp add: add_else_branch)
  have "start \<le> last_is ?s1" using False by simp
  then have "add start len ?s1 = Some (?s1\<lparr>changes := changes ?s1 @ [(start, len)]\<rparr>)"
    by (rule add_else_branch)
  with 1 show ?thesis by simp
qed

text \<open>The theorem at \<open>add(5, 5)\<close> twice on a new set.\<close>

theorem add_twice_same_as_once_witness:
  "(0::int) \<le> 5 \<and> (0::int) \<le> 5 \<and>
   (\<exists>s1 s2. add 5 5 (IndexSet None) = Some s1 \<and> add 5 5 s1 = Some s2 \<and>
           content s2 = content s1 \<and> last_is s2 = last_is s1 \<and> length_is s2 = length_is s1)"
  using add_twice_same_as_once [of 5 5 "IndexSet None"] by simp

text \<open>
  C10. For every set and every \<open>(start, length)\<close> with \<open>start\<close> at or below the frontier,
  \<open>add(start, length)\<close> returns and leaves the array, the frontier and the cardinality as
  they were; its one effect is the change notification with the arguments passed.
\<close>

theorem add_not_beyond_frontier_unchanged:
  "start \<le> last_is s \<Longrightarrow>
   add start len s = Some (s\<lparr>changes := changes s @ [(start, len)]\<rparr>)"
  by (simp add: add_def hint_def)

text \<open>The theorem at \<open>add(2, 2)\<close> on the set after \<open>add(5, 5)\<close>, whose frontier is 10.\<close>

theorem add_not_beyond_frontier_unchanged_witness:
  "(2::int) \<le> last_is \<lparr>content = [0 \<mapsto> - 5, 5 \<mapsto> 10, 10 \<mapsto> 0], last_is = 10, length_is = 5,
        changes = [(5, 5)]\<rparr> \<and>
   add 2 2 \<lparr>content = [0 \<mapsto> - 5, 5 \<mapsto> 10, 10 \<mapsto> 0], last_is = 10, length_is = 5,
        changes = [(5, 5)]\<rparr> =
     Some \<lparr>content = [0 \<mapsto> - 5, 5 \<mapsto> 10, 10 \<mapsto> 0], last_is = 10, length_is = 5,
        changes = [(5, 5), (2, 2)]\<rparr>"
  using add_not_beyond_frontier_unchanged [of 2 "\<lparr>content = [0 \<mapsto> - 5, 5 \<mapsto> 10, 10 \<mapsto> 0], last_is = 10, length_is = 5,
        changes = [(5, 5)]\<rparr>" 2]
  by simp

end
